theory Spec2Isabelle
  imports Main "HOL-Library.Word" "HOL-Library.Sublist"
begin

section \<open>JavaScript strings\<close>

text \<open>
  A JavaScript string is a sequence of UTF-16 code units. The literals of the source are
  ASCII except for the emoji in the alert titles of \<^verbatim>\<open>src/unnamed/part_000\<close>, which are
  written out as code units below.
\<close>

type_synonym jsstring = "16 word list"

definition js :: "string \<Rightarrow> jsstring" where
  "js s = map of_char s"

text \<open>
  \<^verbatim>\<open>String.prototype.trim\<close> strips the code points of WhiteSpace and LineTerminator
  (ECMAScript): TAB, LF, VT, FF, CR, SP, NBSP, U+1680, U+2000..U+200A, U+2028, U+2029,
  U+202F, U+205F, U+3000 and U+FEFF, all of them single code units.
\<close>

definition isWhiteSpace :: "16 word \<Rightarrow> bool" where
  "isWhiteSpace c =
     (c \<in> {0x09, 0x0A, 0x0B, 0x0C, 0x0D, 0x20, 0xA0, 0x1680, 0x2028, 0x2029, 0x202F,
            0x205F, 0x3000, 0xFEFF}
      \<or> (0x2000 \<le> c \<and> c \<le> 0x200A))"

definition trim :: "jsstring \<Rightarrow> jsstring" where
  "trim s = rev (dropWhile isWhiteSpace (rev (dropWhile isWhiteSpace s)))"

text \<open>
  The template \<^verbatim>\<open>${i + 1}\<close> renders a non-negative integer in decimal.
\<close>

definition digit :: "nat \<Rightarrow> 16 word" where
  "digit d = 0x30 + of_nat d"

function numberToString :: "nat \<Rightarrow> jsstring" where
  "numberToString n =
     (if n < 10 then [digit n] else numberToString (n div 10) @ [digit (n mod 10)])"
  by pat_completeness auto
termination
  by (relation "measure (\<lambda>n. n)") auto

declare numberToString.simps [simp del]

section \<open>Component state and effects\<close>

text \<open>
  The three \<^verbatim>\<open>useState\<close> cells of \<^verbatim>\<open>App\<close>. An image picker asset is used only
  through its \<^verbatim>\<open>uri\<close>.
\<close>

record imageAsset =
  uri :: jsstring

record appState =
  selectedImages :: "imageAsset list"
  pdfName :: jsstring
  isGenerating :: bool

text \<open>
  A handler runs against the values of the render that created it; its calls to the state
  setters, to \<^verbatim>\<open>Alert.alert\<close> and to the Expo modules are recorded, in order, as a trace.
  An alert carries its buttons, each with the setter calls of its \<^verbatim>\<open>onPress\<close>; these run
  only if the user presses the button and are not part of the handler's own trace.
  Calls to \<^verbatim>\<open>console.log\<close> and \<^verbatim>\<open>console.error\<close> are not recorded.
\<close>

datatype action =
    SetSelectedImages "imageAsset list"
  | SetPdfName jsstring
  | SetIsGenerating bool

record shareOptions =
  mimeType :: jsstring
  dialogTitle :: jsstring
  UTI :: jsstring

type_synonym mediaAsset = jsstring

datatype event =
    Set action
  | Alert jsstring jsstring "(jsstring \<times> action list) list"
  | ReadAsStringAsync jsstring
  | PrintToFileAsync jsstring
  | RequestPermissionsAsync
  | CreateAssetAsync jsstring
  | CreateAlbumAsync jsstring mediaAsset bool
  | MoveAsync jsstring jsstring
  | CopyAsync jsstring jsstring
  | IsAvailableAsync
  | ShareAsync jsstring "shareOptions option"
  | RequestMediaLibraryPermissionsAsync
  | LaunchImageLibraryAsync

fun setState :: "appState \<Rightarrow> action \<Rightarrow> appState" where
  "setState st (SetSelectedImages xs) = st\<lparr>selectedImages := xs\<rparr>"
| "setState st (SetPdfName n) = st\<lparr>pdfName := n\<rparr>"
| "setState st (SetIsGenerating b) = st\<lparr>isGenerating := b\<rparr>"

fun applyEvent :: "appState \<Rightarrow> event \<Rightarrow> appState" where
  "applyEvent st (Set a) = setState st a"
| "applyEvent st _ = st"

definition afterTrace :: "appState \<Rightarrow> event list \<Rightarrow> appState" where
  "afterTrace st evs = foldl applyEvent st evs"

text \<open>
  A rejected promise is a value: \<open>Inl\<close> of the error, of which the handlers read only
  \<^verbatim>\<open>message\<close>. The Expo modules are parameters of the model, each a function of its
  arguments: a service asked the same thing twice answers the same, and every call
  settles.
\<close>

datatype jserror = Error (message: jsstring)

text \<open>
  What a permission request resolves to, and what the image picker resolves to;
  \<^verbatim>\<open>assets\<close> is \<open>None\<close> where the picker leaves it \<^verbatim>\<open>null\<close>.
\<close>

record permissionResponse =
  status :: jsstring
  granted :: bool

record pickerResult =
  canceled :: bool
  assets :: "imageAsset list option"

record services =
  readAsStringAsync :: "jsstring \<Rightarrow> jserror + jsstring"
  printToFileAsync :: "jsstring \<Rightarrow> jserror + jsstring"
  platformOS :: jsstring
  requestPermissionsAsync :: "jserror + permissionResponse"
  createAssetAsync :: "jsstring \<Rightarrow> jserror + mediaAsset"
  createAlbumAsync :: "jsstring \<Rightarrow> mediaAsset \<Rightarrow> bool \<Rightarrow> jserror + unit"
  documentDirectory :: jsstring
  moveAsync :: "jsstring \<Rightarrow> jsstring \<Rightarrow> jserror + unit"
  copyAsync :: "jsstring \<Rightarrow> jsstring \<Rightarrow> jserror + unit"
  isAvailableAsync :: "jserror + bool"
  shareAsync :: "jsstring \<Rightarrow> shareOptions option \<Rightarrow> jserror + unit"
  requestMediaLibraryPermissionsAsync :: "jserror + permissionResponse"
  launchImageLibraryAsync :: "jserror + pickerResult"

text \<open>
  The repository holds two versions of the component, \<^verbatim>\<open>src/App.js\<close> and
  \<^verbatim>\<open>src/unnamed/part_000\<close>. They share \<^verbatim>\<open>removeImage\<close> and the body of
  \<^verbatim>\<open>generatePDF\<close> up to the alert titles, and differ in \<^verbatim>\<open>savePDF\<close>,
  \<^verbatim>\<open>requestPermissions\<close> and \<^verbatim>\<open>pickImages\<close>.
\<close>

datatype sourceFile = App_js | Part_000

section \<open>removeImage\<close>

text \<open>
  \<^verbatim>\<open>selectedImages.filter((_, i) => i !== index)\<close>, for an integer \<^verbatim>\<open>index\<close>.
\<close>

definition filterIndex :: "(nat \<Rightarrow> bool) \<Rightarrow> 'a list \<Rightarrow> 'a list" where
  "filterIndex p xs = map snd (filter (\<lambda>(i, x). p i) (enumerate 0 xs))"

definition removeImage :: "appState \<Rightarrow> int \<Rightarrow> event list" where
  "removeImage st index =
     [Set (SetSelectedImages (filterIndex (\<lambda>i. int i \<noteq> index) (selectedImages st)))]"

section \<open>generatePDF and savePDF\<close>

definition noImagesTitle :: "sourceFile \<Rightarrow> jsstring" where
  "noImagesTitle v =
     (case v of App_js \<Rightarrow> js ''No Images''
              | Part_000 \<Rightarrow> [0xD83D, 0xDCF7] @ js '' No Images'')"

definition nameRequiredTitle :: "sourceFile \<Rightarrow> jsstring" where
  "nameRequiredTitle v =
     (case v of App_js \<Rightarrow> js ''PDF Name Required''
              | Part_000 \<Rightarrow> [0x270F, 0xFE0F] @ js '' PDF Name Required'')"

definition errorTitle :: "sourceFile \<Rightarrow> jsstring" where
  "errorTitle v =
     (case v of App_js \<Rightarrow> js ''Error'' | Part_000 \<Rightarrow> [0x274C] @ js '' Error'')"

definition saveErrorTitle :: "sourceFile \<Rightarrow> jsstring" where
  "saveErrorTitle v =
     (case v of App_js \<Rightarrow> js ''Save Error'' | Part_000 \<Rightarrow> [0x274C] @ js '' Save Error'')"

definition couldNotRead :: "nat \<Rightarrow> jsstring" where
  "couldNotRead i =
     js ''Could not read image '' @ numberToString (i + 1)
       @ js ''. It may be stored in iCloud. Please download it first.''"

text \<open>
  The \<^verbatim>\<open>for\<close> loop of \<^verbatim>\<open>generatePDF\<close>, from index \<open>i\<close> with the \<^verbatim>\<open>images\<close>
  pushed so far. The result is \<open>None\<close> where the \<^verbatim>\<open>catch\<close> of the inner
  \<^verbatim>\<open>try\<close> returns from the handler, and the collected strings where the loop runs out.
\<close>

function readImages ::
  "sourceFile \<Rightarrow> services \<Rightarrow> imageAsset list \<Rightarrow> nat \<Rightarrow> jsstring list
     \<Rightarrow> event list \<times> jsstring list option" where
  "readImages v env sel i images =
     (if i < length sel then
        (case readAsStringAsync env (uri (sel ! i)) of
           Inr base64 \<Rightarrow>
             (case readImages v env sel (i + 1)
                     (if base64 \<noteq> [] then images @ [base64] else images) of
                (evs, r) \<Rightarrow> (ReadAsStringAsync (uri (sel ! i)) # evs, r))
         | Inl err \<Rightarrow>
             ([ReadAsStringAsync (uri (sel ! i)),
               Alert (errorTitle v) (couldNotRead i) [],
               Set (SetIsGenerating False)], None))
      else ([], Some images))"
  by pat_completeness auto
termination
  by (relation "measure (\<lambda>(v, env, sel, i, images). length sel - i)") auto

declare readImages.simps [simp del]

definition imgTag :: "jsstring \<Rightarrow> jsstring" where
  \<open>imgTag base64 =
     js ''<img src="data:image/jpeg;base64,'' @ base64
       @ js ''" style="width:100%;display:block;"/>''\<close>

definition imagesHtml :: "jsstring list \<Rightarrow> jsstring" where
  "imagesHtml images = concat (map imgTag images)"

definition htmlHead :: jsstring where
  "htmlHead =
     js ''\<newline><!DOCTYPE html>\<newline><html>\<newline><head>\<newline>  <style>\<newline>''
     @ js ''    * { margin: 0; padding: 0; box-sizing: border-box; }\<newline>''
     @ js ''    body { margin: 0; padding: 0; }\<newline>''
     @ js ''    img { width: 100%; display: block; }\<newline>''
     @ js ''  </style>\<newline></head>\<newline><body>''"

definition htmlTail :: jsstring where
  "htmlTail = js ''</body>\<newline></html>''"

definition html :: "jsstring list \<Rightarrow> jsstring" where
  "html images = htmlHead @ imagesHtml images @ htmlTail"

definition resetButton :: "jsstring \<times> action list" where
  "resetButton = (js ''OK'', [SetSelectedImages [], SetPdfName []])"

definition pdfShareOptions :: shareOptions where
  "pdfShareOptions =
     \<lparr>mimeType = js ''application/pdf'', dialogTitle = js ''Save PDF'',
      UTI = js ''com.adobe.pdf''\<rparr>"

text \<open>
  \<^verbatim>\<open>savePDF(uri)\<close>; the parameter is \<open>fileUri\<close> here. Every rejection inside its
  \<^verbatim>\<open>try\<close> ends in the \<^verbatim>\<open>catch\<close>, so the function itself never throws.
\<close>

definition saveFailed :: "sourceFile \<Rightarrow> jserror \<Rightarrow> event list" where
  "saveFailed v err = [Alert (saveErrorTitle v) (message err) []]"

definition savePDF :: "sourceFile \<Rightarrow> services \<Rightarrow> appState \<Rightarrow> jsstring \<Rightarrow> event list" where
  \<open>savePDF v env st fileUri =
     (let fileName = trim (pdfName st) @ js ''.pdf'' in
      case v of
        App_js \<Rightarrow>
          (if platformOS env = js ''android'' then
             RequestPermissionsAsync #
             (case requestPermissionsAsync env of
                Inl err \<Rightarrow> saveFailed v err
              | Inr permission \<Rightarrow>
                  (if granted permission then
                     CreateAssetAsync fileUri #
                     (case createAssetAsync env fileUri of
                        Inl err \<Rightarrow> saveFailed v err
                      | Inr asset \<Rightarrow>
                          CreateAlbumAsync (js ''Download'') asset False #
                          (case createAlbumAsync env (js ''Download'') asset False of
                             Inl err \<Rightarrow> saveFailed v err
                           | Inr _ \<Rightarrow>
                               [Alert (js ''Success!'')
                                  (js ''PDF saved to Downloads: '' @ fileName)
                                  [resetButton]]))
                   else []))
           else
             (let newUri = documentDirectory env @ fileName in
              MoveAsync fileUri newUri #
              (case moveAsync env fileUri newUri of
                 Inl err \<Rightarrow> saveFailed v err
               | Inr _ \<Rightarrow>
                   IsAvailableAsync #
                   (case isAvailableAsync env of
                      Inl err \<Rightarrow> saveFailed v err
                    | Inr available \<Rightarrow>
                        (if available then
                           ShareAsync newUri None #
                           (case shareAsync env newUri None of
                              Inl err \<Rightarrow> saveFailed v err
                            | Inr _ \<Rightarrow>
                                [Set (SetSelectedImages []), Set (SetPdfName [])])
                         else [])))))
      | Part_000 \<Rightarrow>
          (let newUri = documentDirectory env @ fileName in
           CopyAsync fileUri newUri #
           (case copyAsync env fileUri newUri of
              Inl err \<Rightarrow> saveFailed v err
            | Inr _ \<Rightarrow>
                IsAvailableAsync #
                (case isAvailableAsync env of
                   Inl err \<Rightarrow> saveFailed v err
                 | Inr available \<Rightarrow>
                     (if available then
                        ShareAsync newUri (Some pdfShareOptions) #
                        (case shareAsync env newUri (Some pdfShareOptions) of
                           Inl err \<Rightarrow> saveFailed v err
                         | Inr _ \<Rightarrow>
                             [Alert ([0x2705] @ js '' Success!'')
                                (js ''PDF "'' @ fileName
                                   @ js ''" created! You can now save it to your device.'')
                                [resetButton]])
                      else
                        [Alert ([0x2705] @ js '' PDF Created!'')
                           (js ''PDF saved as: '' @ fileName)
                           [resetButton]])))))\<close>

text \<open>
  \<^verbatim>\<open>generatePDF\<close>. A \<^verbatim>\<open>return\<close> inside the outer \<^verbatim>\<open>try\<close> still runs the
  \<^verbatim>\<open>finally\<close>, hence the second \<open>Set (SetIsGenerating False)\<close> on those paths.
\<close>

definition generatePDF :: "sourceFile \<Rightarrow> services \<Rightarrow> appState \<Rightarrow> event list" where
  "generatePDF v env st =
     (if length (selectedImages st) = 0 then
        [Alert (noImagesTitle v) (js ''Please select at least one image.'') []]
      else if trim (pdfName st) = [] then
        [Alert (nameRequiredTitle v) (js ''Please enter a name for your PDF.'') []]
      else
        Set (SetIsGenerating True) #
        (case readImages v env (selectedImages st) 0 [] of
           (evs, None) \<Rightarrow> evs @ [Set (SetIsGenerating False)]
         | (evs, Some images) \<Rightarrow>
             evs @
             (if length images = 0 then
                [Alert (errorTitle v) (js ''No images could be processed.'') [],
                 Set (SetIsGenerating False),
                 Set (SetIsGenerating False)]
              else
                PrintToFileAsync (html images) #
                (case printToFileAsync env (html images) of
                   Inl error \<Rightarrow>
                     [Alert (errorTitle v) (js ''Failed to generate PDF: '' @ message error) [],
                      Set (SetIsGenerating False)]
                 | Inr fileUri \<Rightarrow>
                     savePDF v env st fileUri @ [Set (SetIsGenerating False)]))))"

text \<open>
  The Generate button: \<^verbatim>\<open>onPress={generatePDF}\<close> with
  \<^verbatim>\<open>disabled={selectedImages.length === 0 || !pdfName.trim() || isGenerating}\<close>. A disabled
  \<^verbatim>\<open>TouchableOpacity\<close> does not call its \<^verbatim>\<open>onPress\<close>.
\<close>

definition generateDisabled :: "appState \<Rightarrow> bool" where
  "generateDisabled st =
     (length (selectedImages st) = 0 \<or> trim (pdfName st) = [] \<or> isGenerating st)"

definition pressGenerate :: "sourceFile \<Rightarrow> services \<Rightarrow> appState \<Rightarrow> event list" where
  "pressGenerate v env st = (if generateDisabled st then [] else generatePDF v env st)"

section \<open>requestPermissions and pickImages\<close>








section \<open>The component at run time\<close>

text \<open>
  Inputs reach the component one at a time, each handled against the latest render. A
  handler runs until its next awaited service call; that the call settles is an input of
  its own, after which the handler runs on to its next call or to its end. An invocation
  is in flight from its first awaited call until its last effect; \<open>inFlight\<close> holds, for
  each, the effects it has still to perform. Only \<^verbatim>\<open>generatePDF\<close> calls
  \<^verbatim>\<open>setIsGenerating\<close>; what every other handler (\<^verbatim>\<open>removeImage\<close>, \<^verbatim>\<open>clearAll\<close>,
  \<^verbatim>\<open>pickImages\<close>, the text input, the button of a success alert) does to the state is a
  call of \<^verbatim>\<open>setSelectedImages\<close> or \<^verbatim>\<open>setPdfName\<close>, which the inputs \<open>SetSelection\<close>
  and \<open>SetName\<close> stand for, with any value and at any moment. The initial state is that
  of the three \<^verbatim>\<open>useState\<close> calls.
\<close>

fun isAwait :: "event \<Rightarrow> bool" where
  "isAwait (Set _) = False"
| "isAwait (Alert _ _ _) = False"
| "isAwait _ = True"

definition performed :: "event list \<Rightarrow> event list" where
  "performed tr =
     takeWhile (\<lambda>e. \<not> isAwait e) tr @ take 1 (dropWhile (\<lambda>e. \<not> isAwait e) tr)"

definition suspended :: "event list \<Rightarrow> event list list" where
  "suspended tr = (case dropWhile (\<lambda>e. \<not> isAwait e) tr of [] \<Rightarrow> [] | a # rest \<Rightarrow> [rest])"

record runtime =
  rendered :: appState
  inFlight :: "event list list"
  effectLog :: "event list"

datatype input =
    PressGenerate
  | Settle nat
  | SetSelection "imageAsset list"
  | SetName jsstring

definition initialRuntime :: runtime where
  "initialRuntime =
     \<lparr>rendered = \<lparr>selectedImages = [], pdfName = [], isGenerating = False\<rparr>,
      inFlight = [], effectLog = []\<rparr>"

fun step :: "sourceFile \<Rightarrow> services \<Rightarrow> runtime \<Rightarrow> input \<Rightarrow> runtime" where
  "step v env s PressGenerate =
     (let tr = pressGenerate v env (rendered s) in
      \<lparr>rendered = afterTrace (rendered s) (performed tr),
       inFlight = inFlight s @ suspended tr,
       effectLog = effectLog s @ performed tr\<rparr>)"
| "step v env s (Settle k) =
     (if k < length (inFlight s) then
        (let tr = inFlight s ! k in
         \<lparr>rendered = afterTrace (rendered s) (performed tr),
          inFlight = take k (inFlight s) @ suspended tr @ drop (Suc k) (inFlight s),
          effectLog = effectLog s @ performed tr\<rparr>)
      else s)"
| "step v env s (SetSelection xs) = s\<lparr>rendered := (rendered s)\<lparr>selectedImages := xs\<rparr>\<rparr>"
| "step v env s (SetName n) = s\<lparr>rendered := (rendered s)\<lparr>pdfName := n\<rparr>\<rparr>"

definition run :: "sourceFile \<Rightarrow> services \<Rightarrow> input list \<Rightarrow> runtime" where
  "run v env inputs = foldl (step v env) initialRuntime inputs"

section \<open>Vocabulary of the statements\<close>

text \<open>
  The string a successful read of an image yields (the empty string where the read fails;
  the statements use it only for images that read).
\<close>

definition base64Of :: "services \<Rightarrow> imageAsset \<Rightarrow> jsstring" where
  "base64Of env img =
     (case readAsStringAsync env (uri img) of Inr base64 \<Rightarrow> base64 | Inl _ \<Rightarrow> [])"

text \<open>
  An embedded-image block of the markup opens with \<open>imgOpen\<close> and closes with
  \<open>imgClose\<close>; \<open>countOccurrences p s\<close> is the number of positions of \<open>s\<close> at which
  \<open>p\<close> starts. Base64 text is over the alphabet \<^verbatim>\<open>A-Z a-z 0-9 + / =\<close>.
\<close>

definition imgOpen :: jsstring where
  \<open>imgOpen = js ''<img src="data:image/jpeg;base64,''\<close>

definition imgClose :: jsstring where
  \<open>imgClose = js ''" style="width:100%;display:block;"/>''\<close>

fun countOccurrences :: "'a list \<Rightarrow> 'a list \<Rightarrow> nat" where
  "countOccurrences p [] = 0"
| "countOccurrences p (x # xs) = (if prefix p (x # xs) then 1 else 0) + countOccurrences p xs"

text \<open>
  The payloads of the embedded-image blocks of a markup string, in order: at every position
  where \<open>imgOpen\<close> starts, the text after it up to the next double quote.
\<close>

fun blockPayloads :: "jsstring \<Rightarrow> jsstring list" where
  "blockPayloads [] = []"
| "blockPayloads (c # cs) =
     (if prefix imgOpen (c # cs)
      then [takeWhile (\<lambda>d. d \<noteq> 0x22) (drop (length imgOpen) (c # cs))] else [])
     @ blockPayloads cs"

definition isBase64Char :: "16 word \<Rightarrow> bool" where
  "isBase64Char c =
     ((0x41 \<le> c \<and> c \<le> 0x5A) \<or> (0x61 \<le> c \<and> c \<le> 0x7A) \<or> (0x30 \<le> c \<and> c \<le> 0x39)
      \<or> c = 0x2B \<or> c = 0x2F \<or> c = 0x3D)"

definition isBase64 :: "jsstring \<Rightarrow> bool" where
  "isBase64 s = list_all isBase64Char s"



text \<open>
  A trace in which no awaited call follows a \<^verbatim>\<open>setIsGenerating(false)\<close>; the run-time
  states with at most one invocation in flight, the flag on while it is; and whether a
  service, by its answer, rejects the call an event records.
\<close>

fun releaseLast :: "event list \<Rightarrow> bool" where
  "releaseLast [] = True"
| "releaseLast (e # es) =
     ((e = Set (SetIsGenerating False) \<longrightarrow> \<not> list_ex isAwait es) \<and> releaseLast es)"

definition oneInFlight :: "runtime \<Rightarrow> bool" where
  "oneInFlight s =
     (inFlight s = []
      \<or> (\<exists>p. inFlight s = [p] \<and> isGenerating (rendered s) \<and> releaseLast p))"


section \<open>Sample sessions and devices\<close>

text \<open>
  Concrete inputs at which the theorems below are exercised. On the sample device images
  A and B read as Base64 text, image C reads as the empty string, every other location is
  unreadable, and every other service succeeds.
\<close>

definition imageA :: imageAsset where "imageA = \<lparr>uri = js ''file:///a.jpg''\<rparr>"
definition imageB :: imageAsset where "imageB = \<lparr>uri = js ''file:///b.jpg''\<rparr>"
definition imageC :: imageAsset where "imageC = \<lparr>uri = js ''file:///c.jpg''\<rparr>"

definition sessionAB :: appState where
  "sessionAB = \<lparr>selectedImages = [imageA, imageB], pdfName = js '' Report '', isGenerating = False\<rparr>"

definition deviceServices :: services where
  "deviceServices =
     \<lparr>readAsStringAsync = (\<lambda>u. if u = js ''file:///a.jpg'' then Inr (js ''QQ=='')
                               else if u = js ''file:///b.jpg'' then Inr (js ''Qg=='')
                               else if u = js ''file:///c.jpg'' then Inr []
                               else Inl (Error (js ''File is not readable''))),
      printToFileAsync = (\<lambda>h. Inr (js ''file:///cache/Print/1.pdf'')),
      platformOS = js ''ios'',
      requestPermissionsAsync = Inr \<lparr>status = js ''granted'', granted = True\<rparr>,
      createAssetAsync = (\<lambda>u. Inr (js ''asset-1'')),
      createAlbumAsync = (\<lambda>n a c. Inr ()),
      documentDirectory = js ''file:///documents/'',
      moveAsync = (\<lambda>f t. Inr ()),
      copyAsync = (\<lambda>f t. Inr ()),
      isAvailableAsync = Inr True,
      shareAsync = (\<lambda>u opts. Inr ()),
      requestMediaLibraryPermissionsAsync = Inr \<lparr>status = js ''granted'', granted = True\<rparr>,
      launchImageLibraryAsync = Inr \<lparr>canceled = False, assets = Some [imageA, imageB]\<rparr>\<rparr>"

definition sessionEmpty :: appState where
  "sessionEmpty = \<lparr>selectedImages = [], pdfName = js ''Report'', isGenerating = False\<rparr>"

definition sessionBlank :: appState where
  "sessionBlank =
     \<lparr>selectedImages = [imageA], pdfName = [0x20, 0x09, 0x3000], isGenerating = False\<rparr>"

definition imageD :: imageAsset where "imageD = \<lparr>uri = js ''ph://cloud-only''\<rparr>"

definition sessionACB :: appState where
  "sessionACB =
     \<lparr>selectedImages = [imageA, imageC, imageB], pdfName = js ''Report'', isGenerating = False\<rparr>"

definition sessionAD :: appState where
  "sessionAD =
     \<lparr>selectedImages = [imageA, imageD, imageB], pdfName = js ''Report'', isGenerating = False\<rparr>"

definition sessionC :: appState where
  "sessionC = \<lparr>selectedImages = [imageC], pdfName = js ''Report'', isGenerating = False\<rparr>"



definition printedPdf :: jsstring where
  "printedPdf = js ''file:///cache/Print/1.pdf''"

definition sessionReport :: appState where
  "sessionReport =
     \<lparr>selectedImages = [imageA, imageB], pdfName = js ''Report'', isGenerating = False\<rparr>"

definition pressedOnce :: "input list" where
  "pressedOnce = [SetSelection [imageA, imageB], SetName (js ''Report''), PressGenerate]"





section \<open>The selection\<close>

lemma afterTrace_Nil [simp]: "afterTrace st [] = st"
  by (simp add: afterTrace_def)

lemma afterTrace_Cons [simp]: "afterTrace st (e # evs) = afterTrace (applyEvent st e) evs"
  by (simp add: afterTrace_def)

lemma afterTrace_append [simp]:
  "afterTrace st (evs @ evs') = afterTrace (afterTrace st evs) evs'"
  by (simp add: afterTrace_def)

lemma filter_enumerate_neq:
  "map snd (filter (\<lambda>(i, x). i \<noteq> k) (enumerate n xs)) =
     (if n \<le> k \<and> k < n + length xs then take (k - n) xs @ drop (Suc (k - n)) xs else xs)"
proof (induction xs arbitrary: n)
  case Nil
  show ?case by simp
next
  case (Cons x xs)
  show ?case
  proof (cases "n = k")
    case True
    have "map snd (filter (\<lambda>(i, x). i \<noteq> k) (enumerate (Suc k) xs)) = xs"
      using Cons.IH [of "Suc k"] by simp
    with True show ?thesis by simp
  next
    case False
    show ?thesis
    proof (cases "n < k")
      case True
      then obtain d where d: "k - n = Suc d" "k - Suc n = d"
        by (cases "k - n") auto
      with True False show ?thesis
        using Cons.IH [of "Suc n"] by auto
    next
      case False
      with \<open>n \<noteq> k\<close> show ?thesis
        using Cons.IH [of "Suc n"] by auto
    qed
  qed
qed

lemma filterIndex_int:
  "filterIndex (\<lambda>i. int i \<noteq> index) xs =
     (if 0 \<le> index \<and> index < int (length xs)
      then take (nat index) xs @ drop (Suc (nat index)) xs else xs)"
proof (cases "0 \<le> index")
  case True
  then have eq: "(\<lambda>i. int i \<noteq> index) = (\<lambda>i. i \<noteq> nat index)" by auto
  show ?thesis
    unfolding filterIndex_def eq using True
    by (simp add: filter_enumerate_neq [of "nat index" 0 xs, simplified] nat_less_iff)
next
  case False
  then have eq: "(\<lambda>i. int i \<noteq> index) = (\<lambda>i. True)" by auto
  have "map snd (enumerate 0 xs) = xs" by (simp add: enumerate_eq_zip)
  then show ?thesis
    unfolding filterIndex_def eq using False by simp
qed

text \<open>
  Claim C10. For a selection of length \<open>n\<close>, \<^verbatim>\<open>removeImage(index)\<close> with \<open>index\<close>
  outside \<open>[0, n-1]\<close> sets the selection to an equal list, so the state is unchanged, and
  no error arises; with \<open>index\<close> inside the range it sets the selection to the list without
  the entry at \<open>index\<close>: one shorter, the entries before \<open>index\<close> in place and every later
  entry one position down.
\<close>

theorem removeImage_shifts:
  "(index < 0 \<or> int (length (selectedImages st)) \<le> index \<longrightarrow>
      removeImage st index = [Set (SetSelectedImages (selectedImages st))]
      \<and> afterTrace st (removeImage st index) = st)
   \<and> (0 \<le> index \<and> index < int (length (selectedImages st)) \<longrightarrow>
      (\<exists>sel'. removeImage st index = [Set (SetSelectedImages sel')]
         \<and> selectedImages (afterTrace st (removeImage st index)) = sel'
         \<and> sel' = take (nat index) (selectedImages st) @ drop (Suc (nat index)) (selectedImages st)
         \<and> length sel' = length (selectedImages st) - 1
         \<and> (\<forall>j < nat index. sel' ! j = selectedImages st ! j)
         \<and> (\<forall>j. nat index \<le> j \<and> j < length sel' \<longrightarrow> sel' ! j = selectedImages st ! Suc j)))"
proof (intro conjI impI)
  assume out: "index < 0 \<or> int (length (selectedImages st)) \<le> index"
  then have "filterIndex (\<lambda>i. int i \<noteq> index) (selectedImages st) = selectedImages st"
    by (auto simp: filterIndex_int)
  then show "removeImage st index = [Set (SetSelectedImages (selectedImages st))]"
    by (simp add: removeImage_def)
  then show "afterTrace st (removeImage st index) = st"
    by (simp add: afterTrace_def)
next
  assume inside: "0 \<le> index \<and> index < int (length (selectedImages st))"
  define k where "k = nat index"
  define sel where "sel = selectedImages st"
  define sel' where "sel' = take k sel @ drop (Suc k) sel"
  from inside have k: "k < length sel" by (simp add: k_def sel_def nat_less_iff)
  have run: "removeImage st index = [Set (SetSelectedImages sel')]"
    using inside by (simp add: removeImage_def filterIndex_int sel'_def k_def sel_def)
  have len: "length sel' = length sel - 1"
    using k by (simp add: sel'_def)
  have low: "\<forall>j < k. sel' ! j = sel ! j"
    using k by (simp add: sel'_def nth_append)
  have high: "\<forall>j. k \<le> j \<and> j < length sel' \<longrightarrow> sel' ! j = sel ! Suc j"
  proof (intro allI impI)
    fix j assume j: "k \<le> j \<and> j < length sel'"
    with k len have "sel' ! j = drop (Suc k) sel ! (j - k)"
      by (simp add: sel'_def nth_append min_def)
    also have "\<dots> = sel ! Suc j"
      using j k len by simp
    finally show "sel' ! j = sel ! Suc j" .
  qed
  have "selectedImages (afterTrace st (removeImage st index)) = sel'"
    by (simp add: run afterTrace_def)
  with run len low high
  show "\<exists>sel'. removeImage st index = [Set (SetSelectedImages sel')]
         \<and> selectedImages (afterTrace st (removeImage st index)) = sel'
         \<and> sel' = take (nat index) (selectedImages st) @ drop (Suc (nat index)) (selectedImages st)
         \<and> length sel' = length (selectedImages st) - 1
         \<and> (\<forall>j < nat index. sel' ! j = selectedImages st ! j)
         \<and> (\<forall>j. nat index \<le> j \<and> j < length sel' \<longrightarrow> sel' ! j = selectedImages st ! Suc j)"
    unfolding sel'_def k_def sel_def by blast
qed

theorem removeImage_shifts_witness:
  "removeImage sessionAB 5 = [Set (SetSelectedImages [imageA, imageB])]
   \<and> afterTrace sessionAB (removeImage sessionAB 5) = sessionAB
   \<and> removeImage sessionAB (- 1) = [Set (SetSelectedImages [imageA, imageB])]
   \<and> removeImage sessionAB 0 = [Set (SetSelectedImages [imageB])]"
proof -
  have len: "length (selectedImages sessionAB) = 2"
    by (simp add: sessionAB_def)
  have "removeImage sessionAB 5 = [Set (SetSelectedImages (selectedImages sessionAB))]
        \<and> afterTrace sessionAB (removeImage sessionAB 5) = sessionAB"
    using removeImage_shifts [of 5 sessionAB] len by fastforce
  moreover
  have "removeImage sessionAB (- 1) = [Set (SetSelectedImages (selectedImages sessionAB))]"
    using removeImage_shifts [of "- 1" sessionAB] by fastforce
  moreover
  have "removeImage sessionAB 0 = [Set (SetSelectedImages [imageB])]"
    using removeImage_shifts [of 0 sessionAB] len by (auto simp: sessionAB_def)
  ultimately show ?thesis
    by (simp add: sessionAB_def afterTrace_def)
qed

text \<open>
  Claim C8. On the empty selection, whatever the name, \<^verbatim>\<open>generatePDF\<close> only shows the
  "No Images" alert: the trace holds no read, no render and no setter call, and the state
  after it is the state before.
\<close>

theorem generatePDF_empty_selection:
  "selectedImages st = [] \<Longrightarrow>
     generatePDF v env st = [Alert (noImagesTitle v) (js ''Please select at least one image.'') []]
     \<and> afterTrace st (generatePDF v env st) = st"
  by (simp add: generatePDF_def afterTrace_def)

theorem generatePDF_empty_selection_witness:
  "generatePDF Part_000 deviceServices sessionEmpty =
     [Alert ([0xD83D, 0xDCF7] @ js '' No Images'') (js ''Please select at least one image.'') []]
   \<and> afterTrace sessionEmpty (generatePDF Part_000 deviceServices sessionEmpty) = sessionEmpty"
proof -
  have "selectedImages sessionEmpty = []"
    by (simp add: sessionEmpty_def)
  from generatePDF_empty_selection [OF this, of Part_000 deviceServices]
  show ?thesis by (simp add: noImagesTitle_def)
qed

text \<open>
  Claim C9. On a non-empty selection with a name that trims to the empty string,
  \<^verbatim>\<open>generatePDF\<close> only shows the "PDF Name Required" alert: it is rejected before any
  read and before any other service call.
\<close>

theorem generatePDF_blank_name:
  "selectedImages st \<noteq> [] \<Longrightarrow> trim (pdfName st) = [] \<Longrightarrow>
     generatePDF v env st = [Alert (nameRequiredTitle v) (js ''Please enter a name for your PDF.'') []]
     \<and> afterTrace st (generatePDF v env st) = st"
  by (simp add: generatePDF_def afterTrace_def)

theorem generatePDF_blank_name_witness:
  "generatePDF App_js deviceServices sessionBlank =
     [Alert (js ''PDF Name Required'') (js ''Please enter a name for your PDF.'') []]
   \<and> afterTrace sessionBlank (generatePDF App_js deviceServices sessionBlank) = sessionBlank"
proof -
  have sel: "selectedImages sessionBlank \<noteq> []"
    by (simp add: sessionBlank_def)
  have blank: "trim (pdfName sessionBlank) = []"
    by (simp add: sessionBlank_def trim_def isWhiteSpace_def)
  from generatePDF_blank_name [OF sel blank, of App_js deviceServices]
  show ?thesis by (simp add: nameRequiredTitle_def)
qed

section \<open>The read loop\<close>

lemma digit_inj: "a < 10 \<Longrightarrow> b < 10 \<Longrightarrow> digit a = digit b \<Longrightarrow> a = b"
proof -
  assume a: "a < 10" and b: "b < 10" and eq: "digit a = digit b"
  from eq have "(of_nat a :: 16 word) = of_nat b"
    by (simp add: digit_def)
  then have "unat (of_nat a :: 16 word) = unat (of_nat b :: 16 word)"
    by simp
  moreover have "unat (of_nat a :: 16 word) = a" "unat (of_nat b :: 16 word) = b"
    using a b by (simp_all add: unat_of_nat)
  ultimately show "a = b" by simp
qed

lemma numberToString_nonempty: "numberToString n \<noteq> []"
  by (subst numberToString.simps) simp

lemma numberToString_inj: "numberToString m = numberToString n \<Longrightarrow> m = n"
proof (induction m arbitrary: n rule: numberToString.induct)
  case (1 m)
  show ?case
  proof (cases "m < 10")
    case True
    show ?thesis
    proof (cases "n < 10")
      case n: True
      from "1.prems" True n have "digit m = digit n"
        by (simp add: numberToString.simps [of m] numberToString.simps [of n])
      with True n show ?thesis by (simp add: digit_inj)
    next
      case n: False
      from "1.prems" True n have "numberToString (n div 10) = []"
        by (simp add: numberToString.simps [of m] numberToString.simps [of n])
      with numberToString_nonempty show ?thesis by blast
    qed
  next
    case False
    show ?thesis
    proof (cases "n < 10")
      case n: True
      from "1.prems" False n have "numberToString (m div 10) = []"
        by (simp add: numberToString.simps [of m] numberToString.simps [of n])
      with numberToString_nonempty show ?thesis by blast
    next
      case n: False
      from "1.prems" False n
      have eq: "numberToString (m div 10) = numberToString (n div 10)"
        and d: "digit (m mod 10) = digit (n mod 10)"
        by (simp_all add: numberToString.simps [of m] numberToString.simps [of n])
      from "1.IH" [OF False eq] have "m div 10 = n div 10" .
      moreover from d have "m mod 10 = n mod 10"
        by (simp add: digit_inj)
      ultimately show ?thesis
        by (metis div_mult_mod_eq)
    qed
  qed
qed

lemma readImages_all_read:
  "\<forall>j. i \<le> j \<and> j < length sel \<longrightarrow> (\<exists>s. readAsStringAsync env (uri (sel ! j)) = Inr s) \<Longrightarrow>
   readImages v env sel i images =
     (map (ReadAsStringAsync \<circ> uri) (drop i sel),
      Some (images @ filter (\<lambda>s. s \<noteq> []) (map (base64Of env) (drop i sel))))"
proof (induction v env sel i images rule: readImages.induct)
  case (1 v env sel i images)
  show ?case
  proof (cases "i < length sel")
    case False
    then show ?thesis by (simp add: readImages.simps [of v env sel i images])
  next
    case True
    with "1.prems" obtain s where s: "readAsStringAsync env (uri (sel ! i)) = Inr s"
      by auto
    have later: "\<forall>j. i + 1 \<le> j \<and> j < length sel \<longrightarrow>
                   (\<exists>s. readAsStringAsync env (uri (sel ! j)) = Inr s)"
      using "1.prems" by auto
    have unfold: "drop i sel = sel ! i # drop (i + 1) sel"
      using True by (simp add: Cons_nth_drop_Suc)
    have b: "base64Of env (sel ! i) = s"
      by (simp add: base64Of_def s)
    show ?thesis
      using "1.IH" [OF True s later] True s
      by (simp add: readImages.simps [of v env sel i images] unfold b)
  qed
qed

lemma readImages_first_failure:
  "i \<le> k \<Longrightarrow> k < length sel \<Longrightarrow> readAsStringAsync env (uri (sel ! k)) = Inl err \<Longrightarrow>
   \<forall>j. i \<le> j \<and> j < k \<longrightarrow> (\<exists>s. readAsStringAsync env (uri (sel ! j)) = Inr s) \<Longrightarrow>
   readImages v env sel i images =
     (map (ReadAsStringAsync \<circ> uri) (take (Suc k - i) (drop i sel))
        @ [Alert (errorTitle v) (couldNotRead k) [], Set (SetIsGenerating False)],
      None)"
proof (induction v env sel i images rule: readImages.induct)
  case (1 v env sel i images)
  from "1.prems" have inside: "i < length sel" by simp
  have unfold: "drop i sel = sel ! i # drop (i + 1) sel"
    using inside by (simp add: Cons_nth_drop_Suc)
  show ?case
  proof (cases "i = k")
    case True
    with "1.prems" inside unfold show ?thesis
      by (simp add: readImages.simps [of v env sel k images])
  next
    case False
    with "1.prems" have lt: "i < k" by simp
    with "1.prems" obtain s where s: "readAsStringAsync env (uri (sel ! i)) = Inr s"
      by auto
    have later: "\<forall>j. i + 1 \<le> j \<and> j < k \<longrightarrow>
                   (\<exists>s. readAsStringAsync env (uri (sel ! j)) = Inr s)"
      using "1.prems" by auto
    from lt have le: "i + 1 \<le> k" by simp
    have cnt: "Suc k - i = Suc (Suc k - (i + 1))"
      using lt by simp
    show ?thesis
      using "1.IH" [OF inside s le "1.prems"(2) "1.prems"(3) later] inside s
      by (simp add: readImages.simps [of v env sel i images] unfold cnt)
  qed
qed

lemma readImages_no_start:
  "Set (SetIsGenerating True) \<notin> set (fst (readImages v env sel i images))"
proof (induction v env sel i images rule: readImages.induct)
  case (1 v env sel i images)
  show ?case
  proof (cases "i < length sel")
    case False
    then show ?thesis by (simp add: readImages.simps [of v env sel i images])
  next
    case True
    show ?thesis
    proof (cases "readAsStringAsync env (uri (sel ! i))")
      case (Inl err)
      with True show ?thesis by (simp add: readImages.simps [of v env sel i images])
    next
      case (Inr s)
      with True "1.IH" [OF True Inr] show ?thesis
        by (auto simp: readImages.simps [of v env sel i images] split: prod.splits if_splits)
    qed
  qed
qed

lemma afterTrace_reads: "afterTrace st (map (ReadAsStringAsync \<circ> uri) imgs) = st"
  by (induction imgs) simp_all

lemma savePDF_no_flag: "Set (SetIsGenerating b) \<notin> set (savePDF v env st u)"
  by (auto simp: savePDF_def saveFailed_def Let_def split: sourceFile.splits sum.splits if_splits)

lemma savePDF_no_render: "PrintToFileAsync h \<notin> set (savePDF v env st u)"
  by (auto simp: savePDF_def saveFailed_def Let_def split: sourceFile.splits sum.splits if_splits)

lemma savePDF_no_read: "ReadAsStringAsync h \<notin> set (savePDF v env st u)"
  by (auto simp: savePDF_def saveFailed_def Let_def split: sourceFile.splits sum.splits if_splits)

lemma generatePDF_all_read:
  assumes sel: "selectedImages st \<noteq> []" and name: "trim (pdfName st) \<noteq> []"
    and reads: "\<forall>img \<in> set (selectedImages st). \<exists>s. readAsStringAsync env (uri img) = Inr s"
  shows "generatePDF v env st =
     Set (SetIsGenerating True) # map (ReadAsStringAsync \<circ> uri) (selectedImages st) @
     (let images = filter (\<lambda>s. s \<noteq> []) (map (base64Of env) (selectedImages st)) in
      if images = [] then
        [Alert (errorTitle v) (js ''No images could be processed.'') [],
         Set (SetIsGenerating False), Set (SetIsGenerating False)]
      else
        PrintToFileAsync (html images) #
        (case printToFileAsync env (html images) of
           Inl error \<Rightarrow>
             [Alert (errorTitle v) (js ''Failed to generate PDF: '' @ message error) [],
              Set (SetIsGenerating False)]
         | Inr fileUri \<Rightarrow> savePDF v env st fileUri @ [Set (SetIsGenerating False)]))"
proof -
  have "\<forall>j. 0 \<le> j \<and> j < length (selectedImages st) \<longrightarrow>
          (\<exists>s. readAsStringAsync env (uri (selectedImages st ! j)) = Inr s)"
    using reads by simp
  from readImages_all_read [OF this, of v "[]"]
  have "readImages v env (selectedImages st) 0 [] =
          (map (ReadAsStringAsync \<circ> uri) (selectedImages st),
           Some (filter (\<lambda>s. s \<noteq> []) (map (base64Of env) (selectedImages st))))"
    by simp
  with sel name show ?thesis
    by (simp add: generatePDF_def Let_def)
qed

lemma read_imageA: "readAsStringAsync deviceServices (uri imageA) = Inr (js ''QQ=='')"
  by (simp add: deviceServices_def imageA_def)

lemma read_imageB: "readAsStringAsync deviceServices (uri imageB) = Inr (js ''Qg=='')"
  by (simp add: deviceServices_def imageB_def js_def)

lemma read_imageC: "readAsStringAsync deviceServices (uri imageC) = Inr []"
  by (simp add: deviceServices_def imageC_def js_def)

lemma read_imageD:
  "readAsStringAsync deviceServices (uri imageD) = Inl (Error (js ''File is not readable''))"
  by (simp add: deviceServices_def imageD_def js_def)

lemma trim_Report: "trim (js ''Report'') = js ''Report''"
  by (simp add: trim_def isWhiteSpace_def js_def)

lemma trim_Report_padded: "trim (js '' Report '') = js ''Report''"
  by (simp add: trim_def isWhiteSpace_def js_def)

section \<open>Counting image blocks\<close>

lemma countOccurrences_skip:
  "c \<notin> set xs \<Longrightarrow> countOccurrences (c # p) (xs @ ys) = countOccurrences (c # p) ys"
  by (induction xs) auto

lemma imgOpen_Cons: "\<exists>q. imgOpen = 0x3C # q \<and> 0x3C \<notin> set q"
  by (simp add: imgOpen_def js_def)

lemma imgClose_clean: "0x3C \<notin> set imgClose"
  by (simp add: imgClose_def js_def)

lemma imgTag_parts: "imgTag b = imgOpen @ b @ imgClose"
  by (simp add: imgTag_def imgOpen_def imgClose_def)

lemma countOccurrences_imgTag:
  assumes "0x3C \<notin> set b"
  shows "countOccurrences imgOpen (imgTag b @ rest) = Suc (countOccurrences imgOpen rest)"
proof -
  obtain q where q: "imgOpen = 0x3C # q" "0x3C \<notin> set q"
    using imgOpen_Cons by blast
  have "countOccurrences imgOpen (imgTag b @ rest)
          = countOccurrences (0x3C # q) ((0x3C # q) @ (b @ imgClose @ rest))"
    by (simp add: imgTag_parts q)
  also have "\<dots> = Suc (countOccurrences (0x3C # q) (q @ (b @ imgClose @ rest)))"
    by simp
  also have "countOccurrences (0x3C # q) (q @ (b @ imgClose @ rest))
               = countOccurrences (0x3C # q) (b @ imgClose @ rest)"
    using q(2) by (rule countOccurrences_skip)
  also have "\<dots> = countOccurrences (0x3C # q) (imgClose @ rest)"
    using assms by (rule countOccurrences_skip)
  also have "\<dots> = countOccurrences (0x3C # q) rest"
    using imgClose_clean by (rule countOccurrences_skip)
  finally show ?thesis by (simp add: q)
qed

lemma countOccurrences_imagesHtml:
  "\<forall>b \<in> set images. 0x3C \<notin> set b \<Longrightarrow>
   countOccurrences imgOpen (imagesHtml images @ rest) = length images + countOccurrences imgOpen rest"
  by (induction images) (simp_all add: imagesHtml_def countOccurrences_imgTag)

lemma countOccurrences_htmlHead:
  "countOccurrences imgOpen (htmlHead @ rest) = countOccurrences imgOpen rest"
  by (simp add: htmlHead_def imgOpen_def js_def)

lemma countOccurrences_htmlTail: "countOccurrences imgOpen htmlTail = 0"
  by (simp add: htmlTail_def imgOpen_def js_def)

lemma countOccurrences_html:
  "\<forall>b \<in> set images. 0x3C \<notin> set b \<Longrightarrow> countOccurrences imgOpen (html images) = length images"
  by (simp add: html_def countOccurrences_htmlHead countOccurrences_imagesHtml
        countOccurrences_htmlTail)

lemma isBase64_clean: "isBase64 s \<Longrightarrow> 0x3C \<notin> set s"
  by (auto simp: isBase64_def list_all_iff isBase64Char_def)

lemma blockPayloads_skip:
  "0x3C \<notin> set xs \<Longrightarrow> blockPayloads (xs @ ys) = blockPayloads ys"
proof (induction xs)
  case Nil
  show ?case by simp
next
  case (Cons x xs)
  obtain q where q: "imgOpen = 0x3C # q"
    using imgOpen_Cons by blast
  from Cons.prems have "x \<noteq> 0x3C" by auto
  then have "\<not> prefix imgOpen (x # xs @ ys)"
    by (simp add: q)
  with Cons show ?case by simp
qed

lemma imgClose_Cons: "\<exists>r. imgClose = 0x22 # r"
  by (simp add: imgClose_def js_def)

lemma blockPayloads_block:
  assumes lt: "0x3C \<notin> set b" and quote: "0x22 \<notin> set b"
  shows "blockPayloads (imgOpen @ b @ imgClose @ rest) = b # blockPayloads rest"
proof -
  obtain q where q: "imgOpen = 0x3C # q" "0x3C \<notin> set q"
    using imgOpen_Cons by blast
  obtain r where r: "imgClose = 0x22 # r"
    using imgClose_Cons by blast
  have payload: "takeWhile (\<lambda>d. d \<noteq> 0x22) (b @ imgClose @ rest) = b"
    unfolding r using quote by (induction b) auto
  have after: "blockPayloads (q @ b @ imgClose @ rest) = blockPayloads rest"
    using q(2) lt imgClose_clean by (simp add: blockPayloads_skip)
  have "blockPayloads (imgOpen @ b @ imgClose @ rest)
          = blockPayloads (0x3C # (q @ b @ imgClose @ rest))"
    by (simp add: q)
  also have "\<dots> = [takeWhile (\<lambda>d. d \<noteq> 0x22)
                       (drop (length imgOpen) (imgOpen @ b @ imgClose @ rest))]
                   @ blockPayloads (q @ b @ imgClose @ rest)"
    by (simp add: q)
  also have "\<dots> = b # blockPayloads rest"
    by (simp add: payload after)
  finally show ?thesis .
qed

lemma blockPayloads_blocks:
  "\<forall>b \<in> set images. 0x3C \<notin> set b \<and> 0x22 \<notin> set b \<Longrightarrow>
   blockPayloads (concat (map (\<lambda>b. imgOpen @ b @ imgClose) images) @ rest)
     = images @ blockPayloads rest"
  by (induction images) (simp_all add: blockPayloads_block)

lemma blockPayloads_htmlHead: "blockPayloads (htmlHead @ rest) = blockPayloads rest"
  by (simp add: htmlHead_def imgOpen_def js_def)

lemma blockPayloads_htmlTail: "blockPayloads htmlTail = []"
  by (simp add: htmlTail_def imgOpen_def js_def)

lemma isBase64_unquoted: "isBase64 s \<Longrightarrow> 0x22 \<notin> set s"
  by (auto simp: isBase64_def list_all_iff isBase64Char_def)

lemma html_blocks:
  "html images = htmlHead @ concat (map (\<lambda>b. imgOpen @ b @ imgClose) images) @ htmlTail"
proof -
  have "imgTag = (\<lambda>b. imgOpen @ b @ imgClose)"
    by (rule ext) (rule imgTag_parts)
  then show ?thesis
    by (simp add: html_def imagesHtml_def)
qed

lemma blockPayloads_html:
  "\<forall>b \<in> set images. isBase64 b \<Longrightarrow> blockPayloads (html images) = images"
proof -
  assume "\<forall>b \<in> set images. isBase64 b"
  then have "\<forall>b \<in> set images. 0x3C \<notin> set b \<and> 0x22 \<notin> set b"
    by (auto dest: isBase64_clean isBase64_unquoted)
  then show ?thesis
    by (simp add: html_blocks blockPayloads_htmlHead blockPayloads_blocks blockPayloads_htmlTail)
qed

section \<open>generatePDF\<close>

text \<open>
  Claim C2. If the name passes the check and the read of the image at position \<open>i\<close> is
  the first to be rejected, \<^verbatim>\<open>generatePDF\<close> reads the images up to and including
  position \<open>i\<close>, shows one alert whose message names the ordinal \<open>i + 1\<close>, in a decimal
  rendering that no other position shares, and releases the flag; the renderer is never
  called and the selection is what it was.
\<close>

theorem generatePDF_read_failure:
  assumes name: "trim (pdfName st) \<noteq> []"
    and i: "i < length (selectedImages st)"
    and fails: "readAsStringAsync env (uri (selectedImages st ! i)) = Inl err"
    and before: "\<forall>j < i. \<exists>s. readAsStringAsync env (uri (selectedImages st ! j)) = Inr s"
  shows "generatePDF v env st =
           Set (SetIsGenerating True)
           # map (ReadAsStringAsync \<circ> uri) (take (Suc i) (selectedImages st))
           @ [Alert (errorTitle v)
                (js ''Could not read image '' @ numberToString (i + 1)
                   @ js ''. It may be stored in iCloud. Please download it first.'') [],
              Set (SetIsGenerating False), Set (SetIsGenerating False)]
         \<and> (\<forall>k. numberToString (k + 1) = numberToString (i + 1) \<longrightarrow> k = i)
         \<and> (\<forall>h. PrintToFileAsync h \<notin> set (generatePDF v env st))
         \<and> selectedImages (afterTrace st (generatePDF v env st)) = selectedImages st"
proof -
  have "\<forall>j. 0 \<le> j \<and> j < i \<longrightarrow>
          (\<exists>s. readAsStringAsync env (uri (selectedImages st ! j)) = Inr s)"
    using before by simp
  from readImages_first_failure [OF _ i fails this, of v "[]"]
  have run: "readImages v env (selectedImages st) 0 [] =
          (map (ReadAsStringAsync \<circ> uri) (take (Suc i) (selectedImages st))
             @ [Alert (errorTitle v) (couldNotRead i) [], Set (SetIsGenerating False)], None)"
    by simp
  from i have "selectedImages st \<noteq> []" by auto
  with name run have trace: "generatePDF v env st =
           Set (SetIsGenerating True)
           # map (ReadAsStringAsync \<circ> uri) (take (Suc i) (selectedImages st))
           @ [Alert (errorTitle v)
                (js ''Could not read image '' @ numberToString (i + 1)
                   @ js ''. It may be stored in iCloud. Please download it first.'') [],
              Set (SetIsGenerating False), Set (SetIsGenerating False)]"
    by (simp add: generatePDF_def couldNotRead_def)
  have ordinal: "\<forall>k. numberToString (k + 1) = numberToString (i + 1) \<longrightarrow> k = i"
    by (auto dest: numberToString_inj)
  have render: "\<forall>h. PrintToFileAsync h \<notin> set (generatePDF v env st)"
    unfolding trace by auto
  have kept: "selectedImages (afterTrace st (generatePDF v env st)) = selectedImages st"
    unfolding trace by (simp add: afterTrace_reads)
  show ?thesis
    by (rule conjI [OF trace conjI [OF ordinal conjI [OF render kept]]])
qed

theorem generatePDF_read_failure_witness:
  "generatePDF App_js deviceServices sessionAD =
     [Set (SetIsGenerating True),
      ReadAsStringAsync (js ''file:///a.jpg''),
      ReadAsStringAsync (js ''ph://cloud-only''),
      Alert (js ''Error'')
        (js ''Could not read image 2. It may be stored in iCloud. Please download it first.'') [],
      Set (SetIsGenerating False), Set (SetIsGenerating False)]
   \<and> selectedImages (afterTrace sessionAD (generatePDF App_js deviceServices sessionAD))
       = [imageA, imageD, imageB]"
proof -
  have name: "trim (pdfName sessionAD) \<noteq> []"
    by (simp add: sessionAD_def trim_Report) (simp add: js_def)
  have i: "1 < length (selectedImages sessionAD)"
    by (simp add: sessionAD_def)
  have fails: "readAsStringAsync deviceServices (uri (selectedImages sessionAD ! 1))
                 = Inl (Error (js ''File is not readable''))"
    by (simp add: sessionAD_def read_imageD)
  have before: "\<forall>j < 1. \<exists>s. readAsStringAsync deviceServices (uri (selectedImages sessionAD ! j)) = Inr s"
    by (simp add: sessionAD_def read_imageA)
  have two: "numberToString (Suc (Suc 0)) = [0x32]"
    by (simp add: numberToString.simps [of "Suc (Suc 0)"] digit_def)
  from generatePDF_read_failure [OF name i fails before, of App_js]
  show ?thesis
    by (simp add: two sessionAD_def errorTitle_def imageA_def imageD_def js_def)
qed

text \<open>
  Claim C3. If the reads of the selected images succeed with the non-empty strings
  \<open>contents\<close>, one per image in selection order, the only markup submitted to the renderer
  is the template around one embedded-image block per image, in selection order, the block of
  an image being \<^verbatim>\<open><img src="data:image/jpeg;base64,\<close> followed by the string read for
  that image and the closing \<^verbatim>\<open>" style="width:100%;display:block;"/>\<close>; it is submitted
  whenever the selection and the trimmed name are non-empty; and when the strings are
  Base64 text, reading the payloads of the blocks back from the markup gives exactly
  \<open>contents\<close>, and the markup holds as many block openings as the selection has images.
\<close>

theorem generatePDF_markup:
  assumes reads: "map (\<lambda>img. readAsStringAsync env (uri img)) (selectedImages st) = map Inr contents"
    and filled: "\<forall>c \<in> set contents. c \<noteq> []"
  shows "(\<forall>h. PrintToFileAsync h \<in> set (generatePDF v env st) \<longrightarrow>
            h = htmlHead @ concat (map (\<lambda>c. imgOpen @ c @ imgClose) contents) @ htmlTail)
       \<and> (selectedImages st \<noteq> [] \<and> trim (pdfName st) \<noteq> [] \<longrightarrow>
            PrintToFileAsync
              (htmlHead @ concat (map (\<lambda>c. imgOpen @ c @ imgClose) contents) @ htmlTail)
              \<in> set (generatePDF v env st))
       \<and> length contents = length (selectedImages st)
       \<and> ((\<forall>c \<in> set contents. isBase64 c) \<longrightarrow>
            blockPayloads
              (htmlHead @ concat (map (\<lambda>c. imgOpen @ c @ imgClose) contents) @ htmlTail)
              = contents
            \<and> countOccurrences imgOpen
                (htmlHead @ concat (map (\<lambda>c. imgOpen @ c @ imgClose) contents) @ htmlTail)
              = length (selectedImages st))"
proof -
  let ?sel = "selectedImages st"
  let ?markup = "htmlHead @ concat (map (\<lambda>c. imgOpen @ c @ imgClose) contents) @ htmlTail"
  have len: "length contents = length ?sel"
    using arg_cong [OF reads, of length] by simp
  have "map (base64Of env) ?sel
          = map (\<lambda>r. case r of Inr b \<Rightarrow> b | Inl _ \<Rightarrow> [])
              (map (\<lambda>img. readAsStringAsync env (uri img)) ?sel)"
    by (simp add: base64Of_def comp_def)
  also have "\<dots> = contents"
    unfolding reads by (simp add: comp_def)
  finally have images: "map (base64Of env) ?sel = contents" .
  have markup: "html contents = ?markup"
    by (rule html_blocks)
  have kept: "filter (\<lambda>s. s \<noteq> []) contents = contents"
    using filled by (simp add: filter_id_conv)
  have ok: "\<forall>img \<in> set ?sel. \<exists>s. readAsStringAsync env (uri img) = Inr s"
  proof
    fix img assume "img \<in> set ?sel"
    then have "readAsStringAsync env (uri img)
                 \<in> set (map (\<lambda>img. readAsStringAsync env (uri img)) ?sel)"
      by simp
    then show "\<exists>s. readAsStringAsync env (uri img) = Inr s"
      unfolding reads by auto
  qed
  have trace: "generatePDF v env st =
            Set (SetIsGenerating True) # map (ReadAsStringAsync \<circ> uri) ?sel @
            PrintToFileAsync ?markup #
            (case printToFileAsync env ?markup of
               Inl error \<Rightarrow>
                 [Alert (errorTitle v) (js ''Failed to generate PDF: '' @ message error) [],
                  Set (SetIsGenerating False)]
             | Inr fileUri \<Rightarrow> savePDF v env st fileUri @ [Set (SetIsGenerating False)])"
    if pre: "?sel \<noteq> [] \<and> trim (pdfName st) \<noteq> []"
  proof -
    from pre have sel: "?sel \<noteq> []" and name: "trim (pdfName st) \<noteq> []"
      by simp_all
    from sel len have "contents \<noteq> []" by auto
    with generatePDF_all_read [OF sel name ok, of v] show ?thesis
      by (simp only: images kept Let_def if_False markup)
  qed
  have only: "\<forall>h. PrintToFileAsync h \<in> set (generatePDF v env st) \<longrightarrow> h = ?markup"
  proof (cases "?sel \<noteq> [] \<and> trim (pdfName st) \<noteq> []")
    case False
    then show ?thesis by (auto simp: generatePDF_def)
  next
    case True
    show ?thesis
    proof (cases "printToFileAsync env ?markup")
      case (Inl error)
      with trace [OF True] have "generatePDF v env st =
            Set (SetIsGenerating True) # map (ReadAsStringAsync \<circ> uri) ?sel @
            [PrintToFileAsync ?markup,
             Alert (errorTitle v) (js ''Failed to generate PDF: '' @ message error) [],
             Set (SetIsGenerating False)]"
        by simp
      then show ?thesis by auto
    next
      case (Inr fileUri)
      with trace [OF True] have "generatePDF v env st =
            Set (SetIsGenerating True) # map (ReadAsStringAsync \<circ> uri) ?sel @
            PrintToFileAsync ?markup # savePDF v env st fileUri
            @ [Set (SetIsGenerating False)]"
        by simp
      then show ?thesis by (auto simp: savePDF_no_render)
    qed
  qed
  have submitted: "?sel \<noteq> [] \<and> trim (pdfName st) \<noteq> [] \<longrightarrow>
                     PrintToFileAsync ?markup \<in> set (generatePDF v env st)"
  proof
    assume pre: "?sel \<noteq> [] \<and> trim (pdfName st) \<noteq> []"
    show "PrintToFileAsync ?markup \<in> set (generatePDF v env st)"
      unfolding trace [OF pre] by simp
  qed
  have blocks: "(\<forall>c \<in> set contents. isBase64 c) \<longrightarrow>
                  blockPayloads ?markup = contents
                  \<and> countOccurrences imgOpen ?markup = length ?sel"
  proof
    assume b64: "\<forall>c \<in> set contents. isBase64 c"
    then have payloads: "blockPayloads (html contents) = contents"
      by (rule blockPayloads_html)
    from b64 have "\<forall>b \<in> set contents. 0x3C \<notin> set b"
      by (auto dest: isBase64_clean)
    then have "countOccurrences imgOpen (html contents) = length contents"
      by (rule countOccurrences_html)
    with payloads len
    show "blockPayloads ?markup = contents \<and> countOccurrences imgOpen ?markup = length ?sel"
      unfolding markup by simp
  qed
  show ?thesis
    by (rule conjI [OF only conjI [OF submitted conjI [OF len blocks]]])
qed

theorem generatePDF_markup_witness:
  "PrintToFileAsync
     (htmlHead @ (imgOpen @ js ''QQ=='' @ imgClose) @ (imgOpen @ js ''Qg=='' @ imgClose) @ htmlTail)
     \<in> set (generatePDF App_js deviceServices sessionAB)
   \<and> blockPayloads
       (htmlHead @ (imgOpen @ js ''QQ=='' @ imgClose) @ (imgOpen @ js ''Qg=='' @ imgClose) @ htmlTail)
     = [js ''QQ=='', js ''Qg=='']
   \<and> countOccurrences imgOpen
       (htmlHead @ (imgOpen @ js ''QQ=='' @ imgClose) @ (imgOpen @ js ''Qg=='' @ imgClose) @ htmlTail)
     = 2"
proof -
  have reads: "map (\<lambda>img. readAsStringAsync deviceServices (uri img)) (selectedImages sessionAB)
                 = map Inr [js ''QQ=='', js ''Qg=='']"
    by (simp add: sessionAB_def read_imageA read_imageB)
  have filled: "\<forall>c \<in> set [js ''QQ=='', js ''Qg==''] . c \<noteq> []"
    by (simp add: js_def)
  have sel: "selectedImages sessionAB \<noteq> []"
    by (simp add: sessionAB_def)
  have name: "trim (pdfName sessionAB) \<noteq> []"
    by (simp add: sessionAB_def trim_Report_padded) (simp add: js_def)
  have base64: "\<forall>c \<in> set [js ''QQ=='', js ''Qg==''] . isBase64 c"
    by (simp add: isBase64_def isBase64Char_def js_def)
  have len: "length (selectedImages sessionAB) = 2"
    by (simp add: sessionAB_def)
  from generatePDF_markup [OF reads filled, of App_js] sel name base64 len
  show ?thesis by simp
qed

text \<open>
  Claim C4. If every read succeeds, every image is read, those whose string is empty are
  left out and raise no alert, and the renderer receives the markup of the remaining
  strings, which are as many as the selection has images less the empty reads; only when
  no string remains does the run end with the "No images could be processed." alert,
  without a call of the renderer.
\<close>

theorem generatePDF_skips_empty_reads:
  assumes sel: "selectedImages st \<noteq> []" and name: "trim (pdfName st) \<noteq> []"
    and reads: "\<forall>img \<in> set (selectedImages st). \<exists>s. readAsStringAsync env (uri img) = Inr s"
  shows "(filter (\<lambda>s. s \<noteq> []) (map (base64Of env) (selectedImages st)) \<noteq> [] \<longrightarrow>
            (\<exists>rest. generatePDF v env st =
               Set (SetIsGenerating True)
               # map (ReadAsStringAsync \<circ> uri) (selectedImages st)
               @ PrintToFileAsync
                   (html (filter (\<lambda>s. s \<noteq> []) (map (base64Of env) (selectedImages st))))
               # rest))
       \<and> (filter (\<lambda>s. s \<noteq> []) (map (base64Of env) (selectedImages st)) = [] \<longrightarrow>
            generatePDF v env st =
               Set (SetIsGenerating True)
               # map (ReadAsStringAsync \<circ> uri) (selectedImages st)
               @ [Alert (errorTitle v) (js ''No images could be processed.'') [],
                  Set (SetIsGenerating False), Set (SetIsGenerating False)])
       \<and> length (filter (\<lambda>s. s \<noteq> []) (map (base64Of env) (selectedImages st)))
           = length (selectedImages st)
             - length (filter (\<lambda>img. base64Of env img = []) (selectedImages st))"
proof -
  have count: "length (filter (\<lambda>s. s \<noteq> []) (map (base64Of env) xs))
                 = length xs - length (filter (\<lambda>img. base64Of env img = []) xs)" for xs
  proof (induction xs)
    case Nil
    show ?case by simp
  next
    case (Cons x xs)
    have "length (filter (\<lambda>img. base64Of env img = []) xs) \<le> length xs"
      by simp
    with Cons show ?case by (simp add: Suc_diff_le)
  qed
  from generatePDF_all_read [OF sel name reads, of v] count show ?thesis
    by (simp add: Let_def)
qed

theorem generatePDF_skips_empty_reads_witness:
  "(\<exists>rest. generatePDF App_js deviceServices sessionACB =
      Set (SetIsGenerating True)
      # [ReadAsStringAsync (js ''file:///a.jpg''), ReadAsStringAsync (js ''file:///c.jpg''),
         ReadAsStringAsync (js ''file:///b.jpg'')]
      @ PrintToFileAsync (html [js ''QQ=='', js ''Qg=='']) # rest)
   \<and> generatePDF App_js deviceServices sessionC =
       [Set (SetIsGenerating True), ReadAsStringAsync (js ''file:///c.jpg''),
        Alert (js ''Error'') (js ''No images could be processed.'') [],
        Set (SetIsGenerating False), Set (SetIsGenerating False)]"
proof -
  have name: "trim (pdfName sessionACB) \<noteq> []" "trim (pdfName sessionC) \<noteq> []"
    by (simp_all add: sessionACB_def sessionC_def trim_Report) (simp_all add: js_def)
  have sel: "selectedImages sessionACB \<noteq> []" "selectedImages sessionC \<noteq> []"
    by (simp_all add: sessionACB_def sessionC_def)
  have reads: "\<forall>img \<in> set (selectedImages sessionACB).
                 \<exists>s. readAsStringAsync deviceServices (uri img) = Inr s"
    by (simp add: sessionACB_def read_imageA read_imageB read_imageC)
  have readsC: "\<forall>img \<in> set (selectedImages sessionC).
                 \<exists>s. readAsStringAsync deviceServices (uri img) = Inr s"
    by (simp add: sessionC_def read_imageC)
  have kept: "filter (\<lambda>s. s \<noteq> []) (map (base64Of deviceServices) (selectedImages sessionACB))
                = [js ''QQ=='', js ''Qg=='']"
    by (simp add: sessionACB_def base64Of_def read_imageA read_imageB read_imageC)
       (simp add: js_def)
  have keptC: "filter (\<lambda>s. s \<noteq> []) (map (base64Of deviceServices) (selectedImages sessionC)) = []"
    by (simp add: sessionC_def base64Of_def read_imageC)
  have first: "\<exists>rest. generatePDF App_js deviceServices sessionACB =
      Set (SetIsGenerating True)
      # [ReadAsStringAsync (js ''file:///a.jpg''), ReadAsStringAsync (js ''file:///c.jpg''),
         ReadAsStringAsync (js ''file:///b.jpg'')]
      @ PrintToFileAsync (html [js ''QQ=='', js ''Qg=='']) # rest"
    using generatePDF_skips_empty_reads [OF sel(1) name(1) reads, of App_js]
    unfolding kept by (simp add: sessionACB_def imageA_def imageB_def imageC_def)
  have second: "generatePDF App_js deviceServices sessionC =
       [Set (SetIsGenerating True), ReadAsStringAsync (js ''file:///c.jpg''),
        Alert (js ''Error'') (js ''No images could be processed.'') [],
        Set (SetIsGenerating False), Set (SetIsGenerating False)]"
    using generatePDF_skips_empty_reads [OF sel(2) name(2) readsC, of App_js]
    unfolding keptC by (simp add: sessionC_def imageC_def errorTitle_def)
  from first second show ?thesis by (rule conjI)
qed

text \<open>
  Claim C7. When the selection is non-empty and the trimmed name is non-empty, the first
  effect of \<^verbatim>\<open>generatePDF\<close> is \<^verbatim>\<open>setIsGenerating(true)\<close>, its last effect is
  \<^verbatim>\<open>setIsGenerating(false)\<close>, the flag is not set again in between, and the flag is off in
  the state after the run: whatever the reads, the renderer and the save step answer.
\<close>

theorem generatePDF_releases_flag:
  assumes sel: "selectedImages st \<noteq> []" and name: "trim (pdfName st) \<noteq> []"
  shows "\<exists>mid. generatePDF v env st
                 = Set (SetIsGenerating True) # mid @ [Set (SetIsGenerating False)]
               \<and> Set (SetIsGenerating True) \<notin> set mid
               \<and> \<not> isGenerating (afterTrace st (generatePDF v env st))"
proof -
  obtain evs r where run: "readImages v env (selectedImages st) 0 [] = (evs, r)"
    by fastforce
  have evs: "Set (SetIsGenerating True) \<notin> set evs"
    using readImages_no_start [of v env "selectedImages st" 0 "[]"] run by simp
  have shape: "\<exists>mid. generatePDF v env st
                 = Set (SetIsGenerating True) # mid @ [Set (SetIsGenerating False)]
               \<and> Set (SetIsGenerating True) \<notin> set mid"
  proof (cases r)
    case None
    with sel name run evs show ?thesis
      by (simp add: generatePDF_def)
  next
    case (Some images)
    show ?thesis
    proof (cases "images = []")
      case True
      with sel name run Some have
        "generatePDF v env st = Set (SetIsGenerating True) #
           (evs @ [Alert (errorTitle v) (js ''No images could be processed.'') [],
                   Set (SetIsGenerating False)]) @ [Set (SetIsGenerating False)]"
        by (simp add: generatePDF_def)
      with evs show ?thesis by fastforce
    next
      case False
      show ?thesis
      proof (cases "printToFileAsync env (html images)")
        case (Inl error)
        with sel name run Some False have
          "generatePDF v env st = Set (SetIsGenerating True) #
             (evs @ [PrintToFileAsync (html images),
                     Alert (errorTitle v) (js ''Failed to generate PDF: '' @ message error) []])
             @ [Set (SetIsGenerating False)]"
          by (simp add: generatePDF_def)
        with evs show ?thesis by fastforce
      next
        case (Inr fileUri)
        with sel name run Some False have
          "generatePDF v env st = Set (SetIsGenerating True) #
             (evs @ PrintToFileAsync (html images) # savePDF v env st fileUri)
             @ [Set (SetIsGenerating False)]"
          by (simp add: generatePDF_def)
        moreover have "Set (SetIsGenerating True) \<notin>
                         set (evs @ PrintToFileAsync (html images) # savePDF v env st fileUri)"
          using evs by (simp add: savePDF_no_flag)
        ultimately show ?thesis by blast
      qed
    qed
  qed
  then obtain mid where mid:
    "generatePDF v env st = Set (SetIsGenerating True) # mid @ [Set (SetIsGenerating False)]"
    "Set (SetIsGenerating True) \<notin> set mid"
    by blast
  have "\<not> isGenerating (afterTrace st (Set (SetIsGenerating True) # mid @ [Set (SetIsGenerating False)]))"
    by simp
  with mid show ?thesis by auto
qed

theorem generatePDF_releases_flag_witness:
  "selectedImages sessionAB \<noteq> [] \<and> trim (pdfName sessionAB) \<noteq> []
   \<and> hd (generatePDF App_js deviceServices sessionAB) = Set (SetIsGenerating True)
   \<and> last (generatePDF App_js deviceServices sessionAB) = Set (SetIsGenerating False)
   \<and> \<not> isGenerating (afterTrace sessionAB (generatePDF App_js deviceServices sessionAB))"
proof -
  have sel: "selectedImages sessionAB \<noteq> []"
    by (simp add: sessionAB_def)
  have name: "trim (pdfName sessionAB) \<noteq> []"
    by (simp add: sessionAB_def trim_Report_padded) (simp add: js_def)
  from generatePDF_releases_flag [OF sel name, of App_js deviceServices]
  obtain mid where
    "generatePDF App_js deviceServices sessionAB
       = Set (SetIsGenerating True) # mid @ [Set (SetIsGenerating False)]"
    "\<not> isGenerating (afterTrace sessionAB (generatePDF App_js deviceServices sessionAB))"
    by blast
  with sel name show ?thesis by simp
qed

section \<open>savePDF\<close>





section \<open>Re-entrancy\<close>

lemma releaseLast_append:
  "Set (SetIsGenerating False) \<notin> set xs \<Longrightarrow> releaseLast ys \<Longrightarrow> releaseLast (xs @ ys)"
  by (induction xs) auto

lemma releaseLast_quiet: "\<not> list_ex isAwait ys \<Longrightarrow> releaseLast ys"
  by (induction ys) auto

lemma releaseLast_then_quiet:
  "releaseLast xs \<Longrightarrow> \<not> list_ex isAwait ys \<Longrightarrow> releaseLast (xs @ ys)"
  by (induction xs) (auto simp: releaseLast_quiet)

lemma dropWhile_await:
  "dropWhile (\<lambda>e. \<not> isAwait e) es = a # rest \<Longrightarrow> list_ex isAwait es"
proof -
  assume d: "dropWhile (\<lambda>e. \<not> isAwait e) es = a # rest"
  then have "a \<in> set es"
    by (metis list.set_intros(1) set_dropWhileD)
  moreover from d have "isAwait a"
    by (metis hd_dropWhile list.distinct(1) list.sel(1))
  ultimately show ?thesis by (auto simp: list_ex_iff)
qed

lemma releaseLast_split:
  "releaseLast p \<Longrightarrow> dropWhile (\<lambda>e. \<not> isAwait e) p = a # rest \<Longrightarrow>
     Set (SetIsGenerating False) \<notin> set (takeWhile (\<lambda>e. \<not> isAwait e) p) \<and> releaseLast rest"
proof (induction p)
  case Nil
  then show ?case by simp
next
  case (Cons e es)
  show ?case
  proof (cases "isAwait e")
    case True
    with Cons.prems show ?thesis by simp
  next
    case False
    with Cons.prems have d: "dropWhile (\<lambda>e. \<not> isAwait e) es = a # rest"
      by simp
    then have "list_ex isAwait es" by (rule dropWhile_await)
    with Cons.prems have "e \<noteq> Set (SetIsGenerating False)" by auto
    moreover from Cons.prems have "releaseLast es" by simp
    ultimately show ?thesis
      using Cons.IH [OF _ d] False by simp
  qed
qed

lemma flag_kept:
  "isGenerating st \<Longrightarrow> Set (SetIsGenerating False) \<notin> set xs \<Longrightarrow> isGenerating (afterTrace st xs)"
proof (induction xs arbitrary: st)
  case Nil
  then show ?case by simp
next
  case (Cons x xs)
  have "isGenerating (applyEvent st x)"
  proof (cases x)
    case (Set a)
    with Cons.prems show ?thesis by (cases a) auto
  qed (use Cons.prems in simp_all)
  with Cons show ?case by simp
qed

lemma readImages_release:
  "releaseLast (fst (readImages v env sel i images))
   \<and> (snd (readImages v env sel i images) \<noteq> None \<longrightarrow>
        Set (SetIsGenerating False) \<notin> set (fst (readImages v env sel i images)))"
proof (induction v env sel i images rule: readImages.induct)
  case (1 v env sel i images)
  show ?case
  proof (cases "i < length sel")
    case False
    then show ?thesis by (simp add: readImages.simps [of v env sel i images])
  next
    case True
    show ?thesis
    proof (cases "readAsStringAsync env (uri (sel ! i))")
      case (Inl err)
      with True show ?thesis by (simp add: readImages.simps [of v env sel i images])
    next
      case (Inr s)
      with True "1.IH" [OF True Inr] show ?thesis
        by (auto simp: readImages.simps [of v env sel i images] split: prod.splits if_splits)
    qed
  qed
qed

lemma savePDF_releaseLast: "releaseLast (savePDF v env st u @ [Set (SetIsGenerating False)])"
  by (rule releaseLast_append) (simp_all add: savePDF_no_flag)

lemma generatePDF_releaseLast: "releaseLast (generatePDF v env st)"
proof (cases "selectedImages st = [] \<or> trim (pdfName st) = []")
  case True
  then show ?thesis by (auto simp: generatePDF_def)
next
  case False
  obtain evs r where run: "readImages v env (selectedImages st) 0 [] = (evs, r)"
    by fastforce
  from readImages_release [of v env "selectedImages st" 0 "[]"] run
  have evs: "releaseLast evs" and clean: "r \<noteq> None \<longrightarrow> Set (SetIsGenerating False) \<notin> set evs"
    by simp_all
  have "releaseLast (case (evs, r) of
           (evs, None) \<Rightarrow> evs @ [Set (SetIsGenerating False)]
         | (evs, Some images) \<Rightarrow>
             evs @
             (if length images = 0 then
                [Alert (errorTitle v) (js ''No images could be processed.'') [],
                 Set (SetIsGenerating False),
                 Set (SetIsGenerating False)]
              else
                PrintToFileAsync (html images) #
                (case printToFileAsync env (html images) of
                   Inl error \<Rightarrow>
                     [Alert (errorTitle v) (js ''Failed to generate PDF: '' @ message error) [],
                      Set (SetIsGenerating False)]
                 | Inr fileUri \<Rightarrow>
                     savePDF v env st fileUri @ [Set (SetIsGenerating False)])))"
  proof (cases r)
    case None
    with evs show ?thesis by (simp add: releaseLast_then_quiet)
  next
    case (Some images)
    with clean have c: "Set (SetIsGenerating False) \<notin> set evs" by simp
    show ?thesis
    proof (cases "images = []")
      case True
      with Some c show ?thesis by (simp add: releaseLast_append)
    next
      case False
      show ?thesis
      proof (cases "printToFileAsync env (html images)")
        case (Inl error)
        with Some False c show ?thesis by (simp add: releaseLast_append)
      next
        case (Inr fileUri)
        with Some False c savePDF_releaseLast [of v env st fileUri] show ?thesis
          by (simp add: releaseLast_append)
      qed
    qed
  qed
  with False run show ?thesis
    by (simp add: generatePDF_def)
qed

lemma generatePDF_starts:
  "\<not> generateDisabled st \<Longrightarrow>
     \<exists>tl. generatePDF v env st = Set (SetIsGenerating True) # tl"
  by (simp add: generatePDF_def generateDisabled_def)

lemma advance_keeps:
  assumes flag: "isGenerating st" and rl: "releaseLast tr"
  shows "suspended tr = []
         \<or> (\<exists>p. suspended tr = [p] \<and> isGenerating (afterTrace st (performed tr)) \<and> releaseLast p)"
proof (cases "dropWhile (\<lambda>e. \<not> isAwait e) tr")
  case Nil
  show ?thesis unfolding suspended_def Nil by simp
next
  case (Cons a rest)
  from releaseLast_split [OF rl Cons]
  have clean: "Set (SetIsGenerating False) \<notin> set (takeWhile (\<lambda>e. \<not> isAwait e) tr)"
    and rest: "releaseLast rest"
    by simp_all
  from Cons have "isAwait a"
    by (metis hd_dropWhile list.distinct(1) list.sel(1))
  then have "a \<noteq> Set (SetIsGenerating False)" by auto
  with clean Cons have "Set (SetIsGenerating False) \<notin> set (performed tr)"
    by (simp add: performed_def)
  with flag have "isGenerating (afterTrace st (performed tr))"
    by (rule flag_kept)
  with Cons rest show ?thesis by (simp add: suspended_def)
qed

lemma step_oneInFlight: "oneInFlight s \<Longrightarrow> oneInFlight (step v env s inp)"
proof (cases inp)
  case PressGenerate
  assume inv: "oneInFlight s"
  show ?thesis
  proof (cases "generateDisabled (rendered s)")
    case True
    with inv PressGenerate show ?thesis
      by (simp add: pressGenerate_def performed_def suspended_def oneInFlight_def)
  next
    case False
    then have idle: "\<not> isGenerating (rendered s)"
      by (simp add: generateDisabled_def)
    with inv have none: "inFlight s = []"
      by (auto simp: oneInFlight_def)
    from generatePDF_starts [OF False, of v env] obtain tl
      where tr: "generatePDF v env (rendered s) = Set (SetIsGenerating True) # tl"
      by blast
    have perf: "performed (Set (SetIsGenerating True) # tl)
                  = Set (SetIsGenerating True) # performed tl"
      and susp: "suspended (Set (SetIsGenerating True) # tl) = suspended tl"
      by (simp_all add: performed_def suspended_def)
    from generatePDF_releaseLast [of v env "rendered s"] tr have "releaseLast tl"
      by simp
    from advance_keeps [OF _ this, of "(rendered s)\<lparr>isGenerating := True\<rparr>"]
    have "suspended tl = []
          \<or> (\<exists>p. suspended tl = [p]
                \<and> isGenerating (afterTrace ((rendered s)\<lparr>isGenerating := True\<rparr>) (performed tl))
                \<and> releaseLast p)"
      by simp
    with PressGenerate False none tr show ?thesis
      by (auto simp: pressGenerate_def oneInFlight_def perf susp)
  qed
next
  case (Settle k)
  assume inv: "oneInFlight s"
  show ?thesis
  proof (cases "inFlight s")
    case Nil
    with Settle inv show ?thesis by (simp add: oneInFlight_def)
  next
    case (Cons p ps)
    with inv have one: "inFlight s = [p]" and flag: "isGenerating (rendered s)"
      and rl: "releaseLast p"
      by (auto simp: oneInFlight_def)
    show ?thesis
    proof (cases "k = 0")
      case True
      from advance_keeps [OF flag rl] Settle True one show ?thesis
        by (auto simp: oneInFlight_def)
    next
      case False
      with Settle one inv show ?thesis by simp
    qed
  qed
next
  case (SetSelection xs)
  assume "oneInFlight s"
  with SetSelection show ?thesis by (auto simp: oneInFlight_def)
next
  case (SetName n)
  assume "oneInFlight s"
  with SetName show ?thesis by (auto simp: oneInFlight_def)
qed

lemma run_oneInFlight: "oneInFlight (run v env inputs)"
proof (induction inputs rule: rev_induct)
  case Nil
  show ?case by (simp add: run_def oneInFlight_def initialRuntime_def)
next
  case (snoc inp inputs)
  then show ?case
    by (simp add: run_def step_oneInFlight)
qed

lemma generatePDF_sessionReport:
  "generatePDF App_js deviceServices sessionReport =
     [Set (SetIsGenerating True),
      ReadAsStringAsync (js ''file:///a.jpg''),
      ReadAsStringAsync (js ''file:///b.jpg''),
      PrintToFileAsync (html [js ''QQ=='', js ''Qg=='']),
      MoveAsync printedPdf (js ''file:///documents/Report.pdf''),
      IsAvailableAsync,
      ShareAsync (js ''file:///documents/Report.pdf'') None,
      Set (SetSelectedImages []),
      Set (SetPdfName []),
      Set (SetIsGenerating False)]"
proof -
  have reads: "readImages App_js deviceServices (selectedImages sessionReport) 0 [] =
                 ([ReadAsStringAsync (js ''file:///a.jpg''), ReadAsStringAsync (js ''file:///b.jpg'')],
                  Some [js ''QQ=='', js ''Qg==''])"
    by (simp add: readImages.simps sessionReport_def deviceServices_def
          imageA_def imageB_def js_def)
  have name: "trim (pdfName sessionReport) = js ''Report''"
    by (simp add: sessionReport_def trim_Report)
  have save: "savePDF App_js deviceServices sessionReport printedPdf =
     [MoveAsync printedPdf (js ''file:///documents/Report.pdf''),
      IsAvailableAsync,
      ShareAsync (js ''file:///documents/Report.pdf'') None,
      Set (SetSelectedImages []), Set (SetPdfName [])]"
    by (simp add: savePDF_def name Let_def deviceServices_def) (simp add: js_def)
  have render: "printToFileAsync deviceServices h = Inr printedPdf" for h
    by (simp add: deviceServices_def printedPdf_def)
  have "trim (pdfName sessionReport) \<noteq> []"
    by (simp add: name) (simp add: js_def)
  then show ?thesis
    by (simp add: generatePDF_def reads save render) (simp add: sessionReport_def js_def)
qed

text \<open>
  Claim C1. In every state in which generation is in progress a press of the Generate
  button, the only call site of \<^verbatim>\<open>generatePDF\<close>, is ignored: it performs no effect, hence
  no read and no render, and changes nothing. And whatever inputs the component has
  received, at most one invocation of \<^verbatim>\<open>generatePDF\<close> is in flight, and generation is
  in progress for as long as one is.
\<close>

theorem generate_not_reentrant:
  "(isGenerating (rendered s) \<longrightarrow> step v env s PressGenerate = s)
   \<and> length (inFlight (run v env inputs)) \<le> 1
   \<and> (inFlight (run v env inputs) \<noteq> [] \<longrightarrow> isGenerating (rendered (run v env inputs)))"
proof -
  have ignored: "isGenerating (rendered s) \<longrightarrow> step v env s PressGenerate = s"
    by (simp add: pressGenerate_def generateDisabled_def performed_def suspended_def)
  from run_oneInFlight [of v env inputs]
  have "length (inFlight (run v env inputs)) \<le> 1"
    and "inFlight (run v env inputs) \<noteq> [] \<longrightarrow> isGenerating (rendered (run v env inputs))"
    by (auto simp: oneInFlight_def)
  with ignored show ?thesis by simp
qed

theorem generate_not_reentrant_witness:
  "isGenerating (rendered (run App_js deviceServices pressedOnce))
   \<and> effectLog (run App_js deviceServices pressedOnce)
     = [Set (SetIsGenerating True), ReadAsStringAsync (js ''file:///a.jpg'')]
   \<and> length (inFlight (run App_js deviceServices pressedOnce)) = 1
   \<and> run App_js deviceServices (pressedOnce @ [PressGenerate])
     = run App_js deviceServices pressedOnce"
proof -
  let ?s = "run App_js deviceServices pressedOnce"
  have before: "foldl (step App_js deviceServices) initialRuntime
                  [SetSelection [imageA, imageB], SetName (js ''Report'')]
                = \<lparr>rendered = sessionReport, inFlight = [], effectLog = []\<rparr>"
    by (simp add: initialRuntime_def sessionReport_def)
  have enabled: "\<not> generateDisabled sessionReport"
    by (simp add: generateDisabled_def sessionReport_def trim_Report) (simp add: js_def)
  have state: "?s = \<lparr>rendered = sessionReport\<lparr>isGenerating := True\<rparr>,
                     inFlight = [[ReadAsStringAsync (js ''file:///b.jpg''),
                                  PrintToFileAsync (html [js ''QQ=='', js ''Qg=='']),
                                  MoveAsync printedPdf (js ''file:///documents/Report.pdf''),
                                  IsAvailableAsync,
                                  ShareAsync (js ''file:///documents/Report.pdf'') None,
                                  Set (SetSelectedImages []),
                                  Set (SetPdfName []),
                                  Set (SetIsGenerating False)]],
                     effectLog = [Set (SetIsGenerating True),
                                  ReadAsStringAsync (js ''file:///a.jpg'')]\<rparr>"
    unfolding run_def pressedOnce_def
    using before enabled
    by (simp add: pressGenerate_def generatePDF_sessionReport performed_def suspended_def)
  have flag: "isGenerating (rendered ?s)"
    unfolding state by simp
  from generate_not_reentrant [of ?s App_js deviceServices pressedOnce] flag
  have ignored: "step App_js deviceServices ?s PressGenerate = ?s"
    and one: "length (inFlight ?s) \<le> 1"
    by simp_all
  have again: "run App_js deviceServices (pressedOnce @ [PressGenerate])
                 = step App_js deviceServices ?s PressGenerate"
    by (simp add: run_def)
  have "length (inFlight ?s) = 1"
    unfolding state by simp
  moreover have "effectLog ?s
     = [Set (SetIsGenerating True), ReadAsStringAsync (js ''file:///a.jpg'')]"
    unfolding state by simp
  ultimately show ?thesis
    using flag ignored again by simp
qed

section \<open>Failures and their notices\<close>















end
